theory Spec2Isabelle
  imports Main "HOL-Library.AList"
begin

section \<open>Pallet calculator: layer pattern selection and greedy stacking\<close>

text \<open>
  A shallow embedding of the two computational functions of \<^verbatim>\<open>app.py\<close>:
  \<^verbatim>\<open>get_best_layer_pattern\<close> and \<^verbatim>\<open>calculate_pallet_plan\<close>.
  Python integers are unbounded, so they are \<^typ>\<open>int\<close>; Python's \<^verbatim>\<open>//\<close> and
  \<^verbatim>\<open>%\<close> round towards minus infinity, as \<open>div\<close> and \<open>mod\<close> on \<^typ>\<open>int\<close> do,
  and raise \<^verbatim>\<open>ZeroDivisionError\<close> on a zero divisor, which the model returns as a value.
  A dictionary is an association list in insertion order; a well-formed dictionary has
  distinct keys.
\<close>

subsection \<open>Data\<close>

datatype error = ZeroDivisionError | KeyError

text \<open>One row of the input dictionary: \<^verbatim>\<open>{'L':..., 'W':..., 'H':..., 'QTY':..., 'Color':...}\<close>.\<close>

record item_data =
  L :: int
  W :: int
  H :: int
  QTY :: int
  Color :: string

text \<open>The dictionary returned by \<^verbatim>\<open>get_best_layer_pattern\<close>.\<close>

record pattern =
  count :: int
  cols :: int
  rows :: int
  box_w_view :: int
  box_d_view :: int
  rotated :: bool

text \<open>The layer type is the string \<^verbatim>\<open>'full'\<close> or \<^verbatim>\<open>'rem'\<close>.\<close>

datatype layer_kind = Full | Rem

text \<open>
  A queued layer \<^verbatim>\<open>{'name':..., 'type':..., 'count':...}\<close>; its count field is
  \<open>layer_count\<close>, since \<open>count\<close> is the field of a pattern.
\<close>

record layer =
  name :: string
  type :: layer_kind
  layer_count :: int

text \<open>An entry of \<^verbatim>\<open>item_specs\<close>.\<close>

record item_spec =
  h :: int
  color :: string
  pattern :: pattern
  orig_l :: int
  orig_w :: int

text \<open>A pallet \<^verbatim>\<open>{'layers': [...], 'current_h': ...}\<close>.\<close>

record pallet =
  layers :: "layer list"
  current_h :: int

subsection \<open>The layer pattern selector\<close>

text \<open>
  \<^verbatim>\<open>get_best_layer_pattern(p_w, p_d, b_l, b_w)\<close>. Its four floor divisions have the
  divisors \<open>b_l\<close> and \<open>b_w\<close>: the call raises exactly when one of them is zero.
\<close>

definition get_best_layer_pattern :: "int \<Rightarrow> int \<Rightarrow> int \<Rightarrow> int \<Rightarrow> error + pattern" where
  "get_best_layer_pattern p_w p_d b_l b_w =
     (if b_l = 0 \<or> b_w = 0 then Inl ZeroDivisionError
      else
        let cols1 = p_w div b_l;
            rows1 = p_d div b_w;
            count1 = cols1 * rows1;
            cols2 = p_w div b_w;
            rows2 = p_d div b_l;
            count2 = cols2 * rows2
        in if count1 \<ge> count2
           then Inr \<lparr>count = count1, cols = cols1, rows = rows1,
                     box_w_view = b_l, box_d_view = b_w, rotated = False\<rparr>
           else Inr \<lparr>count = count2, cols = cols2, rows = rows2,
                     box_w_view = b_w, box_d_view = b_l, rotated = True\<rparr>)"

subsection \<open>The stacking planner\<close>

text \<open>The loop \<^verbatim>\<open>for _ in range(full_layers): all_layers_queue.append(...)\<close>.\<close>

fun append_full :: "nat \<Rightarrow> layer \<Rightarrow> layer list \<Rightarrow> layer list" where
  "append_full 0 lay queue = queue"
| "append_full (Suc n) lay queue = append_full n lay (queue @ [lay])"

text \<open>
  The first loop of \<^verbatim>\<open>calculate_pallet_plan\<close>, over the items of the input dictionary
  in iteration order, threading \<^verbatim>\<open>all_layers_queue\<close> and \<^verbatim>\<open>item_specs\<close>. The
  pattern is computed before the quantity is looked at, so a zero footprint raises
  even for an item that would be skipped. \<^verbatim>\<open>PALLET_W\<close> and \<^verbatim>\<open>PALLET_D\<close> are module
  globals of the source and parameters here.
\<close>

fun build_queue ::
  "int \<Rightarrow> int \<Rightarrow> (string \<times> item_data) list \<Rightarrow> layer list \<Rightarrow> (string \<times> item_spec) list
     \<Rightarrow> error + (layer list \<times> (string \<times> item_spec) list)" where
  "build_queue PALLET_W PALLET_D [] all_layers_queue item_specs =
     Inr (all_layers_queue, item_specs)"
| "build_queue PALLET_W PALLET_D ((nm, data) # rest) all_layers_queue item_specs =
     (case get_best_layer_pattern PALLET_W PALLET_D (L data) (W data) of
        Inl e \<Rightarrow> Inl e
      | Inr pat \<Rightarrow>
          (let total_qty = QTY data in
           if total_qty \<le> 0 then build_queue PALLET_W PALLET_D rest all_layers_queue item_specs
           else
             let per_layer = count pat in
             if per_layer = 0
             then build_queue PALLET_W PALLET_D rest all_layers_queue item_specs
             else
               let full_layers = total_qty div per_layer;
                   remainder = total_qty mod per_layer;
                   item_specs' = AList.update nm
                     \<lparr>h = H data, color = Color data, pattern = pat,
                      orig_l = L data, orig_w = W data\<rparr> item_specs;
                   queue' = append_full (nat full_layers)
                     \<lparr>name = nm, type = Full, layer_count = per_layer\<rparr> all_layers_queue;
                   queue'' = (if remainder > 0
                              then queue' @ [\<lparr>name = nm, type = Rem, layer_count = remainder\<rparr>]
                              else queue')
               in build_queue PALLET_W PALLET_D rest queue'' item_specs'))"

text \<open>
  The second loop: the greedy assignment of the queued layers, threading \<^verbatim>\<open>pallets\<close>
  and \<^verbatim>\<open>current_pallet\<close>. \<^verbatim>\<open>item_specs[name]\<close> raises \<^verbatim>\<open>KeyError\<close> on a missing key.
\<close>

fun pack_layers ::
  "(string \<times> item_spec) list \<Rightarrow> int \<Rightarrow> int \<Rightarrow> layer list \<Rightarrow> pallet list \<Rightarrow> pallet
     \<Rightarrow> error + (pallet list \<times> pallet)" where
  "pack_layers item_specs limit_h pallet_h [] pallets current_pallet =
     Inr (pallets, current_pallet)"
| "pack_layers item_specs limit_h pallet_h (lay # rest) pallets current_pallet =
     (case map_of item_specs (name lay) of
        None \<Rightarrow> Inl KeyError
      | Some spec \<Rightarrow>
          if current_h current_pallet + h spec \<le> limit_h
          then pack_layers item_specs limit_h pallet_h rest pallets
                 (current_pallet\<lparr>layers := layers current_pallet @ [lay],
                                 current_h := current_h current_pallet + h spec\<rparr>)
          else pack_layers item_specs limit_h pallet_h rest (pallets @ [current_pallet])
                 \<lparr>layers = [lay], current_h = pallet_h + h spec\<rparr>)"

text \<open>
  \<^verbatim>\<open>calculate_pallet_plan(input_data_dict, limit_h, pallet_h)\<close>: both loops and the
  final push of the current pallet when its layer list is not empty.
\<close>

definition calculate_pallet_plan ::
  "int \<Rightarrow> int \<Rightarrow> (string \<times> item_data) list \<Rightarrow> int \<Rightarrow> int
     \<Rightarrow> error + (pallet list \<times> (string \<times> item_spec) list)" where
  "calculate_pallet_plan PALLET_W PALLET_D input_data_dict limit_h pallet_h =
     (case build_queue PALLET_W PALLET_D input_data_dict [] [] of
        Inl e \<Rightarrow> Inl e
      | Inr (all_layers_queue, item_specs) \<Rightarrow>
          (case pack_layers item_specs limit_h pallet_h all_layers_queue []
                  \<lparr>layers = [], current_h = pallet_h\<rparr> of
             Inl e \<Rightarrow> Inl e
           | Inr (pallets, current_pallet) \<Rightarrow>
               Inr (if layers current_pallet \<noteq> [] then pallets @ [current_pallet] else pallets,
                    item_specs)))"

subsection \<open>Inputs of the application\<close>

text \<open>
  The rows of \<^verbatim>\<open>default_data\<close>, as the dictionary the button handler builds from them.
  The sidebar defaults are a pallet of 1100 by 1100 by 150 and a height limit of 1550.
\<close>

definition default_data :: "(string \<times> item_data) list" where
  "default_data =
     [(''Item-A'', \<lparr>L = 336, W = 336, H = 235, QTY = 72, Color = ''#aaccff''\<rparr>),
      (''Item-B'', \<lparr>L = 503, W = 363, H = 321, QTY = 13, Color = ''#ffcc99''\<rparr>)]"

text \<open>One box of Item-A that is 2000 high: with the base height it is above the limit of 1550.\<close>

definition oversized_data :: "(string \<times> item_data) list" where
  "oversized_data =
     [(''Item-A'', \<lparr>L = 336, W = 336, H = 2000, QTY = 1, Color = ''#aaccff''\<rparr>)]"

text \<open>A row of quantity 0 and a row whose box is larger than the pallet.\<close>

definition unplaceable_data :: "(string \<times> item_data) list" where
  "unplaceable_data =
     [(''Item-A'', \<lparr>L = 336, W = 336, H = 235, QTY = 0, Color = ''#aaccff''\<rparr>),
      (''Item-B'', \<lparr>L = 1200, W = 1200, H = 321, QTY = 13, Color = ''#ffcc99''\<rparr>)]"

subsection \<open>The planner as the specification describes it\<close>

text \<open>
  The definitions of this subsection are not translated from the source: they say in the
  specification's words what the queue and the plan are, and the theorems below compare
  the functions above with them.
\<close>

text \<open>No division of the selector raises for any item.\<close>

definition footprints_nonzero :: "(string \<times> item_data) list \<Rightarrow> bool" where
  "footprints_nonzero items \<longleftrightarrow> (\<forall>(nm, data) \<in> set items. L data \<noteq> 0 \<and> W data \<noteq> 0)"

text \<open>The pattern the selector returns for an item, where it returns one.\<close>

definition pattern_of :: "int \<Rightarrow> int \<Rightarrow> item_data \<Rightarrow> pattern" where
  "pattern_of PALLET_W PALLET_D data =
     projr (get_best_layer_pattern PALLET_W PALLET_D (L data) (W data))"

text \<open>Step 1: an item is skipped if its quantity is at most 0 or its boxes-per-layer is 0.\<close>

definition skipped :: "int \<Rightarrow> int \<Rightarrow> item_data \<Rightarrow> bool" where
  "skipped PALLET_W PALLET_D data \<longleftrightarrow>
     QTY data \<le> 0 \<or> count (pattern_of PALLET_W PALLET_D data) = 0"

text \<open>
  Step 1: \<open>floor (quantity / boxesPerLayer)\<close> layers of kind full, each carrying
  boxes-per-layer, then one layer of kind remainder carrying the remainder if that is
  positive.
\<close>

definition item_layers :: "int \<Rightarrow> string \<Rightarrow> int \<Rightarrow> layer list" where
  "item_layers boxes_per_layer nm quantity =
     replicate (nat (quantity div boxes_per_layer))
       \<lparr>name = nm, type = Full, layer_count = boxes_per_layer\<rparr> @
     (if quantity mod boxes_per_layer > 0
      then [\<lparr>name = nm, type = Rem, layer_count = quantity mod boxes_per_layer\<rparr>]
      else [])"

text \<open>The layer queue: the layers of item 1, then those of item 2, and so on.\<close>

definition layer_queue :: "int \<Rightarrow> int \<Rightarrow> (string \<times> item_data) list \<Rightarrow> layer list" where
  "layer_queue PALLET_W PALLET_D items =
     concat (map (\<lambda>(nm, data).
       if skipped PALLET_W PALLET_D data then []
       else item_layers (count (pattern_of PALLET_W PALLET_D data)) nm (QTY data)) items)"

text \<open>The per-item metadata: height, display attribute, pattern and footprint.\<close>

definition spec_of :: "int \<Rightarrow> int \<Rightarrow> item_data \<Rightarrow> item_spec" where
  "spec_of PALLET_W PALLET_D data =
     \<lparr>h = H data, color = Color data, pattern = pattern_of PALLET_W PALLET_D data,
      orig_l = L data, orig_w = W data\<rparr>"

definition spec_entries ::
  "int \<Rightarrow> int \<Rightarrow> (string \<times> item_data) list \<Rightarrow> (string \<times> item_spec) list" where
  "spec_entries PALLET_W PALLET_D items =
     map (\<lambda>(nm, data). (nm, spec_of PALLET_W PALLET_D data))
       (filter (\<lambda>(nm, data). \<not> skipped PALLET_W PALLET_D data) items)"

text \<open>The item height of a layer: the height of the input item the layer names.\<close>

definition layer_height :: "(string \<times> item_data) list \<Rightarrow> layer \<Rightarrow> int" where
  "layer_height items lay = (case map_of items (name lay) of Some data \<Rightarrow> H data | None \<Rightarrow> 0)"

text \<open>
  Step 2, for one queued layer: if \<open>current.height + h \<le> heightLimit\<close>, append the layer
  to the current pallet and add \<open>h\<close> to its height; else push the current pallet and start
  a new one of height \<open>palletBaseHeight + h\<close> holding this single layer.
\<close>

fun greedy_step ::
  "(layer \<Rightarrow> int) \<Rightarrow> int \<Rightarrow> int \<Rightarrow> pallet list \<times> pallet \<Rightarrow> layer \<Rightarrow> pallet list \<times> pallet" where
  "greedy_step height heightLimit palletBaseHeight (output, current) lay =
     (if current_h current + height lay \<le> heightLimit
      then (output, current\<lparr>layers := layers current @ [lay],
                             current_h := current_h current + height lay\<rparr>)
      else (output @ [current], \<lparr>layers = [lay], current_h = palletBaseHeight + height lay\<rparr>))"

text \<open>After the queue is exhausted, the current pallet is pushed if it holds a layer.\<close>

fun finalize :: "pallet list \<times> pallet \<Rightarrow> pallet list" where
  "finalize (output, current) = (if layers current \<noteq> [] then output @ [current] else output)"

definition greedy_plan :: "(layer \<Rightarrow> int) \<Rightarrow> int \<Rightarrow> int \<Rightarrow> layer list \<Rightarrow> pallet list" where
  "greedy_plan height heightLimit palletBaseHeight queue =
     finalize (foldl (greedy_step height heightLimit palletBaseHeight)
       ([], \<lparr>layers = [], current_h = palletBaseHeight\<rparr>) queue)"

subsection \<open>Invariants of the greedy loop\<close>

text \<open>
  A pallet records the base height plus the heights of its layers; it is above the limit
  only as a single layer that is too high by itself; and a layer that is too high by
  itself has the pallet to itself.
\<close>

definition pallet_ok :: "(layer \<Rightarrow> int) \<Rightarrow> int \<Rightarrow> int \<Rightarrow> pallet \<Rightarrow> bool" where
  "pallet_ok height lim base p \<longleftrightarrow>
     current_h p = base + sum_list (map height (layers p)) \<and>
     (lim < current_h p \<longrightarrow> (\<exists>lay. layers p = [lay] \<and> lim - base < height lay)) \<and>
     (\<forall>lay \<in> set (layers p). lim - base < height lay \<longrightarrow> layers p = [lay])"

definition state_ok :: "(layer \<Rightarrow> int) \<Rightarrow> int \<Rightarrow> int \<Rightarrow> pallet list \<times> pallet \<Rightarrow> bool" where
  "state_ok height lim base st \<longleftrightarrow>
     (\<forall>p \<in> set (fst st). pallet_ok height lim base p) \<and> pallet_ok height lim base (snd st)"

text \<open>With a limit not above the base height, every pallet holds at most one layer.\<close>

definition single_state :: "int \<Rightarrow> pallet list \<times> pallet \<Rightarrow> bool" where
  "single_state base st \<longleftrightarrow>
     (\<forall>p \<in> set (fst st). length (layers p) \<le> 1) \<and> length (layers (snd st)) \<le> 1 \<and>
     base \<le> current_h (snd st)"

section \<open>Auxiliary lemmas\<close>

subsection \<open>The first loop builds the layer queue\<close>

text \<open>
  On a dictionary with distinct keys and non-zero footprints the first loop raises
  nothing, appends the layers of the items in order and adds one metadata entry for
  each item it does not skip.
\<close>

lemma append_full_replicate: "append_full n lay queue = queue @ replicate n lay"
  by (induction n arbitrary: queue) (simp_all add: replicate_app_Cons_same)

lemma update_fresh: "k \<notin> fst ` set al \<Longrightarrow> AList.update k v al = al @ [(k, v)]"
  by (induction al) auto

lemma get_best_Inr:
  "b_l \<noteq> 0 \<Longrightarrow> b_w \<noteq> 0 \<Longrightarrow>
     get_best_layer_pattern p_w p_d b_l b_w = Inr (projr (get_best_layer_pattern p_w p_d b_l b_w))"
  by (simp add: get_best_layer_pattern_def Let_def)

lemma build_queue_eq:
  "footprints_nonzero items \<Longrightarrow> distinct (map fst items) \<Longrightarrow>
   fst ` set specs \<inter> fst ` set items = {} \<Longrightarrow>
   build_queue pw pd items queue specs =
     Inr (queue @ layer_queue pw pd items, specs @ spec_entries pw pd items)"
proof (induction items arbitrary: queue specs)
  case Nil
  then show ?case by (simp add: layer_queue_def spec_entries_def)
next
  case (Cons a items)
  obtain nm data where a: "a = (nm, data)" by (cases a)
  from Cons.prems a have nz: "L data \<noteq> 0" "W data \<noteq> 0" and fp: "footprints_nonzero items"
    by (simp_all add: footprints_nonzero_def)
  from Cons.prems a have d: "distinct (map fst items)" and fresh: "nm \<notin> fst ` set items"
    and nspec: "nm \<notin> fst ` set specs" and disj: "fst ` set specs \<inter> fst ` set items = {}"
    by auto
  have pat: "get_best_layer_pattern pw pd (L data) (W data) = Inr (pattern_of pw pd data)"
    unfolding pattern_of_def using nz by (rule get_best_Inr)
  show ?case
  proof (cases "skipped pw pd data")
    case True
    then have "build_queue pw pd (a # items) queue specs = build_queue pw pd items queue specs"
      using pat by (auto simp: a skipped_def Let_def)
    also have "\<dots> = Inr (queue @ layer_queue pw pd items, specs @ spec_entries pw pd items)"
      using fp d disj by (rule Cons.IH)
    finally show ?thesis using True by (simp add: a layer_queue_def spec_entries_def)
  next
    case False
    let ?q = "queue @ item_layers (count (pattern_of pw pd data)) nm (QTY data)"
    let ?s = "specs @ [(nm, spec_of pw pd data)]"
    have "build_queue pw pd (a # items) queue specs = build_queue pw pd items ?q ?s"
      using pat False nspec
      by (simp add: a skipped_def Let_def append_full_replicate update_fresh item_layers_def
          spec_of_def)
    also have "\<dots> = Inr (?q @ layer_queue pw pd items, ?s @ spec_entries pw pd items)"
    proof (rule Cons.IH [OF fp d])
      show "fst ` set ?s \<inter> fst ` set items = {}" using disj fresh by auto
    qed
    finally show ?thesis using False by (simp add: a layer_queue_def spec_entries_def)
  qed
qed

subsection \<open>The second loop is the greedy rule\<close>

text \<open>
  Where every queued layer has an entry in the metadata, the lookup raises nothing and
  the loop is the fold of \<open>greedy_step\<close> over the queue.
\<close>

lemma pack_layers_foldl:
  "\<forall>lay \<in> set queue. \<exists>spec. map_of specs (name lay) = Some spec \<and> h spec = height lay \<Longrightarrow>
   pack_layers specs lim base queue pallets cur =
     Inr (foldl (greedy_step height lim base) (pallets, cur) queue)"
  by (induction queue arbitrary: pallets cur) auto

lemma item_layers_name: "lay \<in> set (item_layers p nm q) \<Longrightarrow> name lay = nm"
  by (auto simp: item_layers_def split: if_splits)

lemma layer_queue_source:
  "lay \<in> set (layer_queue pw pd items) \<Longrightarrow>
     \<exists>data. (name lay, data) \<in> set items \<and> \<not> skipped pw pd data"
  by (auto simp: layer_queue_def dest: item_layers_name split: if_splits)

lemma map_of_spec_entries:
  "distinct (map fst items) \<Longrightarrow> (nm, data) \<in> set items \<Longrightarrow> \<not> skipped pw pd data \<Longrightarrow>
     map_of (spec_entries pw pd items) nm = Some (spec_of pw pd data)"
  by (induction items) (auto simp: spec_entries_def rev_image_eqI)

lemma queue_lookup:
  assumes "distinct (map fst items)" "lay \<in> set (layer_queue pw pd items)"
  shows "\<exists>spec. map_of (spec_entries pw pd items) (name lay) = Some spec \<and>
           h spec = layer_height items lay"
proof -
  from assms(2) obtain data where d: "(name lay, data) \<in> set items" "\<not> skipped pw pd data"
    using layer_queue_source by blast
  have "map_of (spec_entries pw pd items) (name lay) = Some (spec_of pw pd data)"
    using assms(1) d by (rule map_of_spec_entries)
  moreover have "map_of items (name lay) = Some data"
    using assms(1) d(1) by simp
  ultimately show ?thesis by (simp add: layer_height_def spec_of_def)
qed

lemma plan_eq:
  assumes "footprints_nonzero items" "distinct (map fst items)"
  shows "calculate_pallet_plan pw pd items lim base =
           Inr (greedy_plan (layer_height items) lim base (layer_queue pw pd items),
                spec_entries pw pd items)"
proof -
  have bq: "build_queue pw pd items [] [] = Inr (layer_queue pw pd items, spec_entries pw pd items)"
    using build_queue_eq [OF assms, of "[]" pw pd "[]"] by simp
  have pk: "pack_layers (spec_entries pw pd items) lim base (layer_queue pw pd items) []
              \<lparr>layers = [], current_h = base\<rparr> =
            Inr (foldl (greedy_step (layer_height items) lim base)
              ([], \<lparr>layers = [], current_h = base\<rparr>) (layer_queue pw pd items))"
    by (rule pack_layers_foldl) (use assms(2) queue_lookup in blast)
  show ?thesis
    unfolding calculate_pallet_plan_def bq greedy_plan_def
    by (simp add: pk split: prod.split)
qed

subsection \<open>What the greedy rule preserves\<close>

lemma foldl_greedy_invariant:
  assumes "I st"
    and "\<And>st lay. lay \<in> set queue \<Longrightarrow> I st \<Longrightarrow> I (greedy_step height lim base st lay)"
  shows "I (foldl (greedy_step height lim base) st queue)"
  using assms by (induction queue arbitrary: st) auto

lemma foldl_greedy_concat:
  "foldl (greedy_step height lim base) (ps, cur) queue = (ps', cur') \<Longrightarrow>
     concat (map layers ps') @ layers cur' = concat (map layers ps) @ layers cur @ queue"
  by (induction queue arbitrary: ps cur) (auto split: if_splits)

lemma concat_finalize:
  "concat (map layers (finalize (ps, cur))) = concat (map layers ps) @ layers cur"
  by simp

lemma greedy_plan_concat: "concat (map layers (greedy_plan height lim base queue)) = queue"
proof -
  obtain ps cur where f: "foldl (greedy_step height lim base)
      ([], \<lparr>layers = [], current_h = base\<rparr>) queue = (ps, cur)"
    by (cases "foldl (greedy_step height lim base) ([], \<lparr>layers = [], current_h = base\<rparr>) queue")
  from foldl_greedy_concat [OF f] show ?thesis
    unfolding greedy_plan_def f concat_finalize by simp
qed

lemma pallet_ok_start: "base < lim \<Longrightarrow> pallet_ok height lim base \<lparr>layers = [], current_h = base\<rparr>"
  by (simp add: pallet_ok_def)

lemma pallet_ok_new:
  "pallet_ok height lim base \<lparr>layers = [lay], current_h = base + height lay\<rparr>"
  by (simp add: pallet_ok_def)

lemma pallet_ok_append:
  assumes ok: "pallet_ok height lim base p" and fits: "current_h p + height lay \<le> lim"
    and nonneg: "\<And>l. 0 \<le> height l"
  shows "pallet_ok height lim base
           (p\<lparr>layers := layers p @ [lay], current_h := current_h p + height lay\<rparr>)"
proof -
  from ok have hp: "current_h p = base + sum_list (map height (layers p))"
    by (simp add: pallet_ok_def)
  have "0 \<le> sum_list (map height (layers p))"
    by (rule sum_list_nonneg) (auto simp: nonneg)
  with hp have base_le: "base \<le> current_h p" by simp
  from fits nonneg [of lay] have le: "current_h p \<le> lim" by simp
  have small: "\<not> lim - base < height lay" using fits base_le by simp
  have old_small: "\<forall>l \<in> set (layers p). \<not> lim - base < height l"
  proof
    fix l assume l: "l \<in> set (layers p)"
    show "\<not> lim - base < height l"
    proof
      assume big: "lim - base < height l"
      with ok l have "layers p = [l]" by (simp add: pallet_ok_def)
      with hp have "current_h p = base + height l" by simp
      with big le show False by simp
    qed
  qed
  show ?thesis
    using hp fits small old_small by (auto simp: pallet_ok_def)
qed

lemma state_ok_step:
  assumes "state_ok height lim base st" "\<And>l. 0 \<le> height l"
  shows "state_ok height lim base (greedy_step height lim base st lay)"
  using assms
  by (cases st) (auto simp: state_ok_def pallet_ok_new intro: pallet_ok_append)

lemma state_ok_foldl:
  assumes "base < lim" "\<And>l. 0 \<le> height l"
  shows "state_ok height lim base
           (foldl (greedy_step height lim base) ([], \<lparr>layers = [], current_h = base\<rparr>) queue)"
proof (rule foldl_greedy_invariant)
  show "state_ok height lim base ([], \<lparr>layers = [], current_h = base\<rparr>)"
    using assms(1) by (simp add: state_ok_def pallet_ok_start)
next
  fix st lay
  assume "state_ok height lim base st"
  then show "state_ok height lim base (greedy_step height lim base st lay)"
    using assms(2) by (rule state_ok_step)
qed

lemma greedy_plan_ok:
  assumes "base < lim" "\<And>l. 0 \<le> height l" "p \<in> set (greedy_plan height lim base queue)"
  shows "pallet_ok height lim base p"
proof -
  obtain ps cur where f: "foldl (greedy_step height lim base)
      ([], \<lparr>layers = [], current_h = base\<rparr>) queue = (ps, cur)"
    by (cases "foldl (greedy_step height lim base) ([], \<lparr>layers = [], current_h = base\<rparr>) queue")
  have "state_ok height lim base (foldl (greedy_step height lim base)
      ([], \<lparr>layers = [], current_h = base\<rparr>) queue)"
    using assms(1,2) by (rule state_ok_foldl)
  then have "state_ok height lim base (ps, cur)"
    by (simp only: f)
  with assms(3) show ?thesis
    unfolding greedy_plan_def f by (auto simp: state_ok_def split: if_splits)
qed

lemma layer_height_nonneg:
  "\<forall>(nm, data) \<in> set items. 0 \<le> H data \<Longrightarrow> 0 \<le> layer_height items lay"
  by (auto simp: layer_height_def split: option.split dest: map_of_SomeD)

lemma single_state_step:
  assumes "single_state base st" "lim \<le> base" "0 < height lay"
  shows "single_state base (greedy_step height lim base st lay)"
  using assms by (cases st) (auto simp: single_state_def)

lemma greedy_plan_single:
  assumes "lim \<le> base" "\<forall>lay \<in> set queue. 0 < height lay"
    "p \<in> set (greedy_plan height lim base queue)"
  shows "length (layers p) \<le> 1"
proof -
  have "single_state base
          (foldl (greedy_step height lim base) ([], \<lparr>layers = [], current_h = base\<rparr>) queue)"
  proof (rule foldl_greedy_invariant)
    show "single_state base ([], \<lparr>layers = [], current_h = base\<rparr>)"
      by (simp add: single_state_def)
  next
    fix st lay
    assume "lay \<in> set queue" "single_state base st"
    then show "single_state base (greedy_step height lim base st lay)"
      using assms(1,2) by (auto intro: single_state_step)
  qed
  with assms(3) show ?thesis
    unfolding greedy_plan_def
    by (cases "foldl (greedy_step height lim base) ([], \<lparr>layers = [], current_h = base\<rparr>) queue")
       (auto simp: single_state_def split: if_splits)
qed

lemma layer_height_pos:
  assumes "distinct (map fst items)" "\<forall>(nm, data) \<in> set items. 0 < H data"
    "lay \<in> set (layer_queue pw pd items)"
  shows "0 < layer_height items lay"
proof -
  from assms(3) obtain data where d: "(name lay, data) \<in> set items"
    using layer_queue_source by blast
  with assms(1) have "map_of items (name lay) = Some data" by simp
  with d assms(2) show ?thesis by (auto simp: layer_height_def)
qed

subsection \<open>The layers of one item\<close>

lemma pattern_of_eq:
  "footprints_nonzero items \<Longrightarrow> (nm, data) \<in> set items \<Longrightarrow>
     get_best_layer_pattern pw pd (L data) (W data) = Inr (pattern_of pw pd data)"
  unfolding pattern_of_def by (rule get_best_Inr) (auto simp: footprints_nonzero_def)

lemma filter_item_layers_same:
  "filter (\<lambda>lay. name lay = nm) (item_layers p nm q) = item_layers p nm q"
  by (simp add: item_layers_def)

lemma filter_item_layers_other:
  "nm' \<noteq> nm \<Longrightarrow> filter (\<lambda>lay. name lay = nm) (item_layers p nm' q) = []"
  by (simp add: item_layers_def)

lemma filter_layer_queue_absent:
  "nm \<notin> fst ` set items \<Longrightarrow> filter (\<lambda>lay. name lay = nm) (layer_queue pw pd items) = []"
  by (induction items) (auto simp: layer_queue_def filter_item_layers_other)

lemma filter_layer_queue:
  "distinct (map fst items) \<Longrightarrow> (nm, data) \<in> set items \<Longrightarrow>
     filter (\<lambda>lay. name lay = nm) (layer_queue pw pd items) =
       (if skipped pw pd data then []
        else item_layers (count (pattern_of pw pd data)) nm (QTY data))"
proof (induction items)
  case Nil
  then show ?case by simp
next
  case (Cons a items)
  obtain nm' data' where a: "a = (nm', data')" by (cases a)
  have split: "layer_queue pw pd (a # items) =
      (if skipped pw pd data' then []
       else item_layers (count (pattern_of pw pd data')) nm' (QTY data')) @
      layer_queue pw pd items"
    by (simp add: layer_queue_def a)
  show ?case
  proof (cases "nm' = nm")
    case True
    with Cons.prems a have "data' = data" and "nm \<notin> fst ` set items"
      by (auto simp: rev_image_eqI)
    then show ?thesis
      using True by (simp add: split filter_layer_queue_absent filter_item_layers_same)
  next
    case False
    with Cons.prems a have "(nm, data) \<in> set items" "distinct (map fst items)" by auto
    then show ?thesis
      using False Cons.IH by (simp add: split filter_item_layers_other)
  qed
qed

lemma sum_item_layers:
  "0 < p \<Longrightarrow> 0 \<le> q \<Longrightarrow> sum_list (map layer_count (item_layers p nm q)) = q"
proof -
  assume p: "0 < p" and q: "0 \<le> q"
  then have "0 \<le> q div p" by (simp add: pos_imp_zdiv_nonneg_iff)
  then have "int (nat (q div p)) * p + q mod p = q" by simp
  moreover have "0 \<le> q mod p" using p by simp
  ultimately show ?thesis
    by (auto simp: item_layers_def sum_list_replicate)
qed

lemma item_layers_count_pos:
  assumes "lay \<in> set (item_layers p nm q)" "0 < q"
  shows "0 < layer_count lay"
proof (cases "type lay")
  case Full
  with assms(1) have n: "0 < q div p" and c: "layer_count lay = p"
    by (auto simp: item_layers_def split: if_splits)
  have "0 < p"
  proof (rule ccontr)
    assume "\<not> 0 < p"
    then consider "p = 0" | "p < 0" by linarith
    then show False
    proof cases
      case 1 with n show False by simp
    next
      case 2
      with assms(2) have "q div p < 0" by (simp add: neg_imp_zdiv_neg_iff)
      with n show False by simp
    qed
  qed
  with c show ?thesis by simp
next
  case Rem
  with assms(1) show ?thesis by (auto simp: item_layers_def split: if_splits)
qed

lemma layer_queue_count_pos:
  "lay \<in> set (layer_queue pw pd items) \<Longrightarrow> 0 < layer_count lay"
  by (auto simp: layer_queue_def skipped_def split: if_splits dest: item_layers_count_pos)

section \<open>Properties\<close>

text \<open>
  Claim C2. For positive pallet and box dimensions the selector returns a pattern whose
  count is the larger of the two candidate products, which is its own \<open>cols * rows\<close>; it
  is rotated exactly when the rotated product is strictly larger, so the unrotated
  orientation wins every tie; cols, rows and the placed width and depth of a box are
  those of the chosen orientation, the box swapped exactly when rotated. On
  \<open>(1100, 1100, 336, 336)\<close> it returns the unrotated pattern of 3 by 3, count 9.
\<close>

theorem get_best_layer_pattern_larger:
  assumes "0 < p_w" "0 < p_d" "0 < b_l" "0 < b_w"
  shows "\<exists>pat. get_best_layer_pattern p_w p_d b_l b_w = Inr pat \<and>
           count pat = max ((p_w div b_l) * (p_d div b_w)) ((p_w div b_w) * (p_d div b_l)) \<and>
           count pat = cols pat * rows pat \<and>
           (rotated pat \<longleftrightarrow> (p_w div b_l) * (p_d div b_w) < (p_w div b_w) * (p_d div b_l)) \<and>
           (cols pat, rows pat, box_w_view pat, box_d_view pat) =
             (if rotated pat then (p_w div b_w, p_d div b_l, b_w, b_l)
              else (p_w div b_l, p_d div b_w, b_l, b_w)) \<and>
           get_best_layer_pattern 1100 1100 336 336 =
             Inr \<lparr>count = 9, cols = 3, rows = 3, box_w_view = 336, box_d_view = 336,
                  rotated = False\<rparr>"
  using assms by (auto simp: get_best_layer_pattern_def Let_def)

theorem get_best_layer_pattern_larger_witness:
  "(0::int) < 1200 \<and> (0::int) < 800 \<and> (0::int) < 400 \<and> (0::int) < 600 \<and>
   (\<exists>pat. get_best_layer_pattern 1200 800 400 600 = Inr pat \<and> count pat = 4 \<and>
      cols pat = 2 \<and> rows pat = 2 \<and> box_w_view pat = 600 \<and> box_d_view pat = 400 \<and>
      rotated pat)"
  using get_best_layer_pattern_larger [of 1200 800 400 600] by auto

text \<open>
  Claim C9. For four positive dimensions the selector returns a pattern, never an error,
  and its count is not negative; when the box fits the pallet in neither orientation
  the returned count is 0.
\<close>

theorem get_best_layer_pattern_total:
  assumes "0 < p_w" "0 < p_d" "0 < b_l" "0 < b_w"
  shows "\<exists>pat. get_best_layer_pattern p_w p_d b_l b_w = Inr pat \<and> 0 \<le> count pat \<and>
           ((p_w < b_l \<or> p_d < b_w) \<and> (p_w < b_w \<or> p_d < b_l) \<longrightarrow> count pat = 0)"
proof -
  have nn: "0 \<le> (p_w div b_l) * (p_d div b_w)" "0 \<le> (p_w div b_w) * (p_d div b_l)"
    using assms by (simp_all add: pos_imp_zdiv_nonneg_iff)
  have z1: "p_w < b_l \<or> p_d < b_w \<Longrightarrow> (p_w div b_l) * (p_d div b_w) = 0"
    using assms by (auto simp: div_pos_pos_trivial)
  have z2: "p_w < b_w \<or> p_d < b_l \<Longrightarrow> (p_w div b_w) * (p_d div b_l) = 0"
    using assms by (auto simp: div_pos_pos_trivial)
  show ?thesis
    using assms nn z1 z2 by (auto simp: get_best_layer_pattern_def Let_def)
qed

theorem get_best_layer_pattern_total_witness:
  "(0::int) < 1100 \<and> (0::int) < 1200 \<and> (0::int) < 900 \<and>
   (\<exists>pat. get_best_layer_pattern 1100 1100 1200 900 = Inr pat \<and> count pat = 0)"
  using get_best_layer_pattern_total [of 1100 1100 1200 900] by auto

text \<open>
  Claim C1. On a dictionary whose footprints are not zero (as all positive ones are), for
  any height limit and base height, the planner builds its queue without an error and
  returns the pallets that the specification's rule computes from that queue: starting
  from an empty current pallet of the base height, each queued layer of item height \<open>h\<close>
  is appended to the current pallet when \<open>current.height + h \<le> heightLimit\<close> and otherwise
  opens a new pallet of height \<open>palletBaseHeight + h\<close> after the current one is pushed;
  at the end the current pallet is pushed if and only if it holds a layer.
\<close>

theorem planner_follows_greedy_rule:
  assumes "distinct (map fst items)" "footprints_nonzero items"
  shows "\<exists>queue specs. build_queue PALLET_W PALLET_D items [] [] = Inr (queue, specs) \<and>
           calculate_pallet_plan PALLET_W PALLET_D items heightLimit palletBaseHeight =
             Inr (finalize (foldl (greedy_step (layer_height items) heightLimit palletBaseHeight)
                    ([], \<lparr>layers = [], current_h = palletBaseHeight\<rparr>) queue), specs)"
proof -
  have "build_queue PALLET_W PALLET_D items [] [] =
          Inr (layer_queue PALLET_W PALLET_D items, spec_entries PALLET_W PALLET_D items)"
    using build_queue_eq [OF assms(2,1), of "[]" PALLET_W PALLET_D "[]"] by simp
  moreover note plan_eq [OF assms(2,1), of PALLET_W PALLET_D heightLimit palletBaseHeight]
  ultimately show ?thesis by (simp add: greedy_plan_def)
qed

theorem planner_follows_greedy_rule_witness:
  "distinct (map fst default_data) \<and> footprints_nonzero default_data \<and>
   (\<exists>queue specs. build_queue 1100 1100 default_data [] [] = Inr (queue, specs) \<and>
      calculate_pallet_plan 1100 1100 default_data 1550 150 =
        Inr (finalize (foldl (greedy_step (layer_height default_data) 1550 150)
               ([], \<lparr>layers = [], current_h = 150\<rparr>) queue), specs))"
proof -
  have d: "distinct (map fst default_data)" by (simp add: default_data_def)
  have f: "footprints_nonzero default_data"
    by (simp add: default_data_def footprints_nonzero_def)
  from planner_follows_greedy_rule [OF d f, of 1100 1100 1550 150] d f show ?thesis by blast
qed

text \<open>
  Claim C3. For an item of the dictionary with quantity \<open>Q > 0\<close> and boxes-per-layer
  \<open>P > 0\<close>, the layers of that item in the queue that the first loop builds are exactly
  \<open>floor (Q / P)\<close> layers of type full with count \<open>P\<close>, followed by one layer of type
  remainder with count \<open>Q mod P\<close> precisely when \<open>Q mod P > 0\<close>. Every layer of the queue
  has a strictly positive count, and the counts of the item's layers sum to \<open>Q\<close>.
\<close>

theorem queue_layers_of_item:
  assumes "distinct (map fst items)" "footprints_nonzero items"
    and "(nm, data) \<in> set items"
    and "get_best_layer_pattern PALLET_W PALLET_D (L data) (W data) = Inr pat"
    and "0 < QTY data" "0 < count pat"
  shows "\<exists>queue specs. build_queue PALLET_W PALLET_D items [] [] = Inr (queue, specs) \<and>
           filter (\<lambda>lay. name lay = nm) queue =
             replicate (nat (QTY data div count pat))
               \<lparr>name = nm, type = Full, layer_count = count pat\<rparr> @
             (if 0 < QTY data mod count pat
              then [\<lparr>name = nm, type = Rem, layer_count = QTY data mod count pat\<rparr>]
              else []) \<and>
           (\<forall>lay \<in> set queue. 0 < layer_count lay) \<and>
           sum_list (map layer_count (filter (\<lambda>lay. name lay = nm) queue)) = QTY data"
proof -
  have bq: "build_queue PALLET_W PALLET_D items [] [] =
          Inr (layer_queue PALLET_W PALLET_D items, spec_entries PALLET_W PALLET_D items)"
    using build_queue_eq [OF assms(2,1), of "[]" PALLET_W PALLET_D "[]"] by simp
  have pat: "pattern_of PALLET_W PALLET_D data = pat"
    by (simp add: pattern_of_def assms(4))
  with assms(5,6) have ns: "\<not> skipped PALLET_W PALLET_D data"
    by (simp add: skipped_def)
  have fl: "filter (\<lambda>lay. name lay = nm) (layer_queue PALLET_W PALLET_D items) =
          item_layers (count pat) nm (QTY data)"
    using filter_layer_queue [OF assms(1,3), of PALLET_W PALLET_D] ns pat by simp
  have sm: "sum_list (map layer_count (item_layers (count pat) nm (QTY data))) = QTY data"
    using assms(5,6) by (simp add: sum_item_layers)
  have pos: "\<forall>lay \<in> set (layer_queue PALLET_W PALLET_D items). 0 < layer_count lay"
    by (simp add: layer_queue_count_pos)
  show ?thesis
    unfolding bq using fl sm pos by (simp add: item_layers_def)
qed

theorem queue_layers_of_item_witness:
  "distinct (map fst default_data) \<and> footprints_nonzero default_data \<and>
   (''Item-B'', \<lparr>L = 503, W = 363, H = 321, QTY = 13, Color = ''#ffcc99''\<rparr>) \<in> set default_data \<and>
   get_best_layer_pattern 1100 1100 503 363 =
     Inr \<lparr>count = 6, cols = 2, rows = 3, box_w_view = 503, box_d_view = 363, rotated = False\<rparr> \<and>
   (\<exists>queue specs. build_queue 1100 1100 default_data [] [] = Inr (queue, specs) \<and>
      filter (\<lambda>lay. name lay = ''Item-B'') queue =
        [\<lparr>name = ''Item-B'', type = Full, layer_count = 6\<rparr>,
         \<lparr>name = ''Item-B'', type = Full, layer_count = 6\<rparr>,
         \<lparr>name = ''Item-B'', type = Rem, layer_count = 1\<rparr>] \<and>
      sum_list (map layer_count (filter (\<lambda>lay. name lay = ''Item-B'') queue)) = 13)"
proof -
  let ?b = "\<lparr>L = 503, W = 363, H = 321, QTY = 13, Color = ''#ffcc99''\<rparr>"
  let ?p = "\<lparr>count = 6, cols = 2, rows = 3, box_w_view = 503, box_d_view = 363, rotated = False\<rparr>"
  have d: "distinct (map fst default_data)" by (simp add: default_data_def)
  have f: "footprints_nonzero default_data"
    by (simp add: default_data_def footprints_nonzero_def)
  have m: "(''Item-B'', ?b) \<in> set default_data" by (simp add: default_data_def)
  have g: "get_best_layer_pattern 1100 1100 (L ?b) (W ?b) = Inr ?p"
    by (simp add: get_best_layer_pattern_def)
  have q: "0 < QTY ?b" "0 < count ?p" by simp_all
  from queue_layers_of_item [OF d f m g q] d f m g show ?thesis
    by (auto simp: numeral_2_eq_2)
qed

text \<open>
  Claim C4. With a height limit above the base height (and heights that are not
  negative), the planner returns a plan, not an error, in which every pallet records
  the base height plus the sum of the heights of its layers, and is above the limit only
  if it consists of a single layer whose height alone exceeds
  \<open>heightLimit - palletBaseHeight\<close>. Every queued layer that high sits alone on a pallet
  of the plan.
\<close>

theorem pallet_height_bound:
  assumes "distinct (map fst items)" "footprints_nonzero items"
    and "\<forall>(nm, data) \<in> set items. 0 \<le> H data"
    and "palletBaseHeight < heightLimit"
  shows "\<exists>pallets specs.
           calculate_pallet_plan PALLET_W PALLET_D items heightLimit palletBaseHeight =
             Inr (pallets, specs) \<and>
           (\<forall>p \<in> set pallets.
              current_h p = palletBaseHeight + sum_list (map (layer_height items) (layers p)) \<and>
              (heightLimit < current_h p \<longrightarrow>
                 (\<exists>lay. layers p = [lay] \<and>
                    heightLimit - palletBaseHeight < layer_height items lay))) \<and>
           (\<forall>lay \<in> set (layer_queue PALLET_W PALLET_D items).
              heightLimit - palletBaseHeight < layer_height items lay \<longrightarrow>
                (\<exists>p \<in> set pallets. layers p = [lay]))"
proof -
  let ?q = "layer_queue PALLET_W PALLET_D items"
  let ?ps = "greedy_plan (layer_height items) heightLimit palletBaseHeight ?q"
  have eq: "calculate_pallet_plan PALLET_W PALLET_D items heightLimit palletBaseHeight =
      Inr (?ps, spec_entries PALLET_W PALLET_D items)"
    using assms(2,1) by (rule plan_eq)
  have nn: "0 \<le> layer_height items l" for l
    using assms(3) by (rule layer_height_nonneg)
  have ok: "pallet_ok (layer_height items) heightLimit palletBaseHeight p" if "p \<in> set ?ps" for p
    using assms(4) nn that by (rule greedy_plan_ok)
  have a: "\<forall>p \<in> set ?ps.
      current_h p = palletBaseHeight + sum_list (map (layer_height items) (layers p)) \<and>
      (heightLimit < current_h p \<longrightarrow>
         (\<exists>lay. layers p = [lay] \<and> heightLimit - palletBaseHeight < layer_height items lay))"
    using ok by (simp add: pallet_ok_def)
  have b: "\<forall>lay \<in> set ?q. heightLimit - palletBaseHeight < layer_height items lay \<longrightarrow>
      (\<exists>p \<in> set ?ps. layers p = [lay])"
  proof (intro ballI impI)
    fix lay
    assume lay: "lay \<in> set ?q" and big: "heightLimit - palletBaseHeight < layer_height items lay"
    from lay have "lay \<in> set (concat (map layers ?ps))"
      by (simp only: greedy_plan_concat)
    then obtain p where p: "p \<in> set ?ps" "lay \<in> set (layers p)" by auto
    from ok [OF p(1)] p(2) big have "layers p = [lay]" by (simp add: pallet_ok_def)
    with p(1) show "\<exists>p \<in> set ?ps. layers p = [lay]" by blast
  qed
  from eq a b show ?thesis by blast
qed

theorem pallet_height_bound_witness:
  "distinct (map fst oversized_data) \<and> footprints_nonzero oversized_data \<and>
   list_all (\<lambda>(nm, data). 0 \<le> H data) oversized_data \<and> (150::int) < 1550 \<and>
   (\<exists>pallets specs.
      calculate_pallet_plan 1100 1100 oversized_data 1550 150 = Inr (pallets, specs) \<and>
      (\<forall>p \<in> set pallets.
         current_h p = 150 + sum_list (map (layer_height oversized_data) (layers p)) \<and>
         (1550 < current_h p \<longrightarrow>
            (\<exists>lay. layers p = [lay] \<and> 1550 - 150 < layer_height oversized_data lay))) \<and>
      (\<forall>lay \<in> set (layer_queue 1100 1100 oversized_data).
         1550 - 150 < layer_height oversized_data lay \<longrightarrow>
           (\<exists>p \<in> set pallets. layers p = [lay])))"
proof -
  have d: "distinct (map fst oversized_data)" by (simp add: oversized_data_def)
  have f: "footprints_nonzero oversized_data"
    by (simp add: oversized_data_def footprints_nonzero_def)
  have n: "\<forall>(nm, data) \<in> set oversized_data. 0 \<le> H data" by (simp add: oversized_data_def)
  have l: "(150::int) < 1550" by simp
  from pallet_height_bound [OF d f n l, of 1100 1100] d f n show ?thesis
    by (simp add: list_all_iff)
qed

text \<open>
  Claim C5. The layer sequences of the output pallets, concatenated in output order, are
  exactly the layer queue the first loop builds, and that queue is the layers of the
  items in the dictionary's iteration order, the full layers of an item first and its
  remainder layer last: no layer is reordered, dropped or duplicated.
\<close>

theorem pallets_concat_is_queue:
  assumes "distinct (map fst items)" "footprints_nonzero items"
  shows "\<exists>pallets specs.
           calculate_pallet_plan PALLET_W PALLET_D items heightLimit palletBaseHeight =
             Inr (pallets, specs) \<and>
           build_queue PALLET_W PALLET_D items [] [] =
             Inr (layer_queue PALLET_W PALLET_D items, specs) \<and>
           concat (map layers pallets) = layer_queue PALLET_W PALLET_D items \<and>
           (\<forall>(nm, data) \<in> set items.
              get_best_layer_pattern PALLET_W PALLET_D (L data) (W data) =
                Inr (pattern_of PALLET_W PALLET_D data))"
proof -
  have "build_queue PALLET_W PALLET_D items [] [] =
          Inr (layer_queue PALLET_W PALLET_D items, spec_entries PALLET_W PALLET_D items)"
    using build_queue_eq [OF assms(2,1), of "[]" PALLET_W PALLET_D "[]"] by simp
  moreover note plan_eq [OF assms(2,1), of PALLET_W PALLET_D heightLimit palletBaseHeight]
  moreover have "\<forall>(nm, data) \<in> set items.
      get_best_layer_pattern PALLET_W PALLET_D (L data) (W data) =
        Inr (pattern_of PALLET_W PALLET_D data)"
    using assms(2) by (auto intro: pattern_of_eq)
  ultimately show ?thesis by (simp add: greedy_plan_concat)
qed

theorem pallets_concat_is_queue_witness:
  "distinct (map fst default_data) \<and> footprints_nonzero default_data \<and>
   (\<exists>pallets specs.
      calculate_pallet_plan 1100 1100 default_data 1550 150 = Inr (pallets, specs) \<and>
      build_queue 1100 1100 default_data [] [] = Inr (layer_queue 1100 1100 default_data, specs) \<and>
      concat (map layers pallets) = layer_queue 1100 1100 default_data)"
proof -
  have d: "distinct (map fst default_data)" by (simp add: default_data_def)
  have f: "footprints_nonzero default_data"
    by (simp add: default_data_def footprints_nonzero_def)
  from pallets_concat_is_queue [OF d f, of 1100 1100 1550 150] d f show ?thesis by blast
qed

text \<open>
  Claim C6 says that the planner fails with a configuration error when
  \<open>heightLimit \<le> palletBaseHeight\<close>. The source has no such check: with a limit of 100
  and a base height of 150 it returns a plan.
\<close>

theorem degenerate_limit_counterexample:
  "(100::int) \<le> 150 \<and>
   calculate_pallet_plan 1100 1100
     [(''Item-A'', \<lparr>L = 336, W = 336, H = 235, QTY = 10, Color = ''#aaccff''\<rparr>)] 100 150 =
     Inr ([\<lparr>layers = [], current_h = 150\<rparr>,
           \<lparr>layers = [\<lparr>name = ''Item-A'', type = Full, layer_count = 9\<rparr>], current_h = 385\<rparr>,
           \<lparr>layers = [\<lparr>name = ''Item-A'', type = Rem, layer_count = 1\<rparr>], current_h = 385\<rparr>],
          [(''Item-A'', \<lparr>h = 235, color = ''#aaccff'',
              pattern = \<lparr>count = 9, cols = 3, rows = 3, box_w_view = 336, box_d_view = 336,
                          rotated = False\<rparr>,
              orig_l = 336, orig_w = 336\<rparr>)])"
  by (simp add: calculate_pallet_plan_def get_best_layer_pattern_def)

text \<open>
  Claim C6, amended. When \<open>heightLimit \<le> palletBaseHeight\<close>, the planner raises no error
  on a dictionary with non-zero footprints and positive heights: it returns a plan, in
  which no pallet holds more than one layer.
\<close>

theorem degenerate_limit_returns_plan:
  assumes "distinct (map fst items)" "footprints_nonzero items"
    and "\<forall>(nm, data) \<in> set items. 0 < H data"
    and "heightLimit \<le> palletBaseHeight"
  shows "\<exists>pallets specs.
           calculate_pallet_plan PALLET_W PALLET_D items heightLimit palletBaseHeight =
             Inr (pallets, specs) \<and>
           (\<forall>p \<in> set pallets. length (layers p) \<le> 1)"
proof -
  let ?q = "layer_queue PALLET_W PALLET_D items"
  have pos: "\<forall>lay \<in> set ?q. 0 < layer_height items lay"
    using assms(1,3) by (blast intro: layer_height_pos)
  have "\<forall>p \<in> set (greedy_plan (layer_height items) heightLimit palletBaseHeight ?q).
      length (layers p) \<le> 1"
    using assms(4) pos by (blast intro: greedy_plan_single)
  with plan_eq [OF assms(2,1), of PALLET_W PALLET_D heightLimit palletBaseHeight]
  show ?thesis by simp
qed

theorem degenerate_limit_returns_plan_witness:
  "distinct (map fst default_data) \<and> footprints_nonzero default_data \<and>
   list_all (\<lambda>(nm, data). 0 < H data) default_data \<and> (100::int) \<le> 150 \<and>
   (\<exists>pallets specs.
      calculate_pallet_plan 1100 1100 default_data 100 150 = Inr (pallets, specs) \<and>
      (\<forall>p \<in> set pallets. length (layers p) \<le> 1))"
proof -
  have d: "distinct (map fst default_data)" by (simp add: default_data_def)
  have f: "footprints_nonzero default_data"
    by (simp add: default_data_def footprints_nonzero_def)
  have n: "\<forall>(nm, data) \<in> set default_data. 0 < H data" by (simp add: default_data_def)
  have l: "(100::int) \<le> 150" by simp
  from degenerate_limit_returns_plan [OF d f n l, of 1100 1100] d f n show ?thesis
    by (simp add: list_all_iff)
qed

text \<open>
  Claim C7 says that every pallet of the output holds at least one layer. When the first
  queued layer does not fit on the initial, still empty current pallet, the loop pushes
  that empty pallet: the first pallet of the plan below has no layer and the base
  height, although the final push of the function is guarded against just that.
\<close>

theorem empty_pallet_before_oversized_layer:
  "calculate_pallet_plan 1100 1100 oversized_data 1550 150 =
     Inr ([\<lparr>layers = [], current_h = 150\<rparr>,
           \<lparr>layers = [\<lparr>name = ''Item-A'', type = Rem, layer_count = 1\<rparr>], current_h = 2150\<rparr>],
          [(''Item-A'', \<lparr>h = 2000, color = ''#aaccff'',
              pattern = \<lparr>count = 9, cols = 3, rows = 3, box_w_view = 336, box_d_view = 336,
                          rotated = False\<rparr>,
              orig_l = 336, orig_w = 336\<rparr>)])"
  by (simp add: calculate_pallet_plan_def oversized_data_def get_best_layer_pattern_def)

text \<open>
  Claim C8. The planner returns without an error, and an item whose quantity is at most 0
  or whose boxes-per-layer is 0 is a key of no entry of the returned metadata and the
  name of no layer on any returned pallet. If every item is such an item, which
  includes the empty dictionary, the plan has no pallet and the metadata no entry.
\<close>

theorem skipped_items_absent:
  assumes "distinct (map fst items)" "footprints_nonzero items"
  shows "\<exists>pallets specs.
           calculate_pallet_plan PALLET_W PALLET_D items heightLimit palletBaseHeight =
             Inr (pallets, specs) \<and>
           (\<forall>(nm, data) \<in> set items.
              QTY data \<le> 0 \<or> count (pattern_of PALLET_W PALLET_D data) = 0 \<longrightarrow>
                nm \<notin> fst ` set specs \<and>
                (\<forall>p \<in> set pallets. \<forall>lay \<in> set (layers p). name lay \<noteq> nm)) \<and>
           ((\<forall>(nm, data) \<in> set items.
               QTY data \<le> 0 \<or> count (pattern_of PALLET_W PALLET_D data) = 0) \<longrightarrow>
              pallets = [] \<and> specs = [])"
proof -
  let ?q = "layer_queue PALLET_W PALLET_D items"
  let ?ps = "greedy_plan (layer_height items) heightLimit palletBaseHeight ?q"
  let ?sp = "spec_entries PALLET_W PALLET_D items"
  have eq: "calculate_pallet_plan PALLET_W PALLET_D items heightLimit palletBaseHeight =
      Inr (?ps, ?sp)"
    using assms(2,1) by (rule plan_eq)
  have cc: "concat (map layers ?ps) = ?q" by (rule greedy_plan_concat)
  have uniq: "data' = data" if "(nm, data) \<in> set items" "(nm, data') \<in> set items" for nm data data'
    using assms(1) that by (meson eq_key_imp_eq_value)
  have a: "nm \<notin> fst ` set ?sp \<and> (\<forall>p \<in> set ?ps. \<forall>lay \<in> set (layers p). name lay \<noteq> nm)"
    if mem: "(nm, data) \<in> set items" and sk: "skipped PALLET_W PALLET_D data" for nm data
  proof
    show "nm \<notin> fst ` set ?sp"
    proof
      assume "nm \<in> fst ` set ?sp"
      then obtain data' where "(nm, data') \<in> set items" "\<not> skipped PALLET_W PALLET_D data'"
        by (auto simp: spec_entries_def)
      with uniq [OF mem] sk show False by blast
    qed
    show "\<forall>p \<in> set ?ps. \<forall>lay \<in> set (layers p). name lay \<noteq> nm"
    proof (intro ballI notI)
      fix p lay
      assume "p \<in> set ?ps" "lay \<in> set (layers p)" and nm: "name lay = nm"
      then have "lay \<in> set (concat (map layers ?ps))" by auto
      then have "lay \<in> set ?q" by (simp only: cc)
      then obtain data' where "(name lay, data') \<in> set items" "\<not> skipped PALLET_W PALLET_D data'"
        using layer_queue_source by blast
      with uniq [OF mem] sk nm show False by blast
    qed
  qed
  have b: "?ps = [] \<and> ?sp = []" if "\<forall>(nm, data) \<in> set items. skipped PALLET_W PALLET_D data"
  proof -
    from that have "?q = []" by (auto simp: layer_queue_def)
    moreover from that have "?sp = []" by (auto simp: spec_entries_def filter_empty_conv)
    ultimately show ?thesis by (simp add: greedy_plan_def)
  qed
  from eq a b show ?thesis
    unfolding skipped_def by (intro exI conjI) (assumption, blast, blast)
qed

theorem skipped_items_absent_witness:
  "distinct (map fst unplaceable_data) \<and> footprints_nonzero unplaceable_data \<and>
   list_all (\<lambda>(nm, data). QTY data \<le> 0 \<or> count (pattern_of 1100 1100 data) = 0)
     unplaceable_data \<and>
   calculate_pallet_plan 1100 1100 unplaceable_data 1550 150 = Inr ([], [])"
proof -
  have d: "distinct (map fst unplaceable_data)" by (simp add: unplaceable_data_def)
  have f: "footprints_nonzero unplaceable_data"
    by (simp add: unplaceable_data_def footprints_nonzero_def)
  have s: "\<forall>(nm, data) \<in> set unplaceable_data.
      QTY data \<le> 0 \<or> count (pattern_of 1100 1100 data) = 0"
    by (simp add: unplaceable_data_def pattern_of_def get_best_layer_pattern_def)
  from skipped_items_absent [OF d f, of 1100 1100 1550 150] s d f show ?thesis
    by (auto simp: list_all_iff)
qed

end
